theory Spec2Isabelle
  imports Complex_Main "HOL-Library.Word"
begin

section \<open>depinject: provider descriptors (provider\_desc.go)\<close>

subsection \<open>The reflection data the extractor reads\<close>

text \<open>
  \<open>reflect.Type\<close>, as far as \<open>doExtractProviderDescriptor\<close> inspects it: the predeclared
  interface type \<open>error\<close> (the value of \<open>errType\<close>), function types with their parameter
  types, result types and variadic flag, and every other type, identified by its name.
\<close>

datatype rtype =
    ErrorType
  | FuncType "rtype list" "rtype list" bool
  | NamedType string

datatype kind = Func | Interface | OtherKind

fun Kind :: "rtype \<Rightarrow> kind" where
  "Kind ErrorType = Interface"
| "Kind (FuncType ins outs v) = Func"
| "Kind (NamedType n) = OtherKind"

text \<open>
  The accessors of a function type. On a type of another kind they panic in Go; the
  extractor calls them after its check of the kind only, and the model leaves them
  unspecified elsewhere.
\<close>

fun IsVariadic :: "rtype \<Rightarrow> bool" where
  "IsVariadic (FuncType ins outs v) = v"

fun NumIn :: "rtype \<Rightarrow> nat" where
  "NumIn (FuncType ins outs v) = length ins"

fun NumOut :: "rtype \<Rightarrow> nat" where
  "NumOut (FuncType ins outs v) = length outs"

fun In :: "rtype \<Rightarrow> nat \<Rightarrow> rtype" where
  "In (FuncType ins outs v) i = ins ! i"

fun Out :: "rtype \<Rightarrow> nat \<Rightarrow> rtype" where
  "Out (FuncType ins outs v) i = outs ! i"

definition errType :: rtype where
  "errType = ErrorType"

text \<open>
  Modelled from the spec: the type \<open>Location\<close> and the function \<open>LocationFromPC\<close> are
  declared outside the files at hand; the spec gives a location as a string. The function
  is a parameter \<open>locationFromPC\<close> of the extractor, from code pointers to locations.
\<close>

type_synonym Location = string

text \<open>
  Go error values: the three errors the extractor builds with \<open>errors.Errorf\<close>, each with
  the argument of its format string, and any other error (one returned by a provider
  function or by struct-argument expansion).
\<close>

datatype goerror =
    ExpectedFuncType rtype
  | VariadicProvider Location
  | ErrorNotLast Location
  | OtherError string

text \<open>
  \<open>reflect.Value\<close>, as far as the closure \<open>Fn\<close> inspects it. A value of static type
  \<open>error\<close> holds either the nil interface or an error; a value of a function type has
  a code pointer, \<open>0\<close> for the nil function; a value of any other type has the name of
  its type and an opaque payload, \<open>0\<close> for the zero value of the type.
\<close>

datatype rvalue =
    ErrorValue "goerror option"
  | FuncData "rtype list" "rtype list" bool nat
  | DataValue string nat

fun TypeOf :: "rvalue \<Rightarrow> rtype" where
  "TypeOf (ErrorValue e) = ErrorType"
| "TypeOf (FuncData ins outs v pc) = FuncType ins outs v"
| "TypeOf (DataValue n x) = NamedType n"

fun IsZero :: "rvalue \<Rightarrow> bool" where
  "IsZero (ErrorValue e) = (e = None)"
| "IsZero (FuncData ins outs v pc) = (pc = 0)"
| "IsZero (DataValue n x) = (x = 0)"

text \<open>A Go call either panics or returns.\<close>

datatype 'a run = Panics | Returns 'a

text \<open>
  \<open>err.Interface().(error)\<close>: the error held by a value of type \<open>error\<close>. The type
  assertion panics on the nil interface; a value of another type is never asked (the
  result at \<open>errIdx\<close> has type \<open>error\<close>), and the model lets the assertion panic there.
\<close>

fun InterfaceError :: "rvalue \<Rightarrow> goerror run" where
  "InterfaceError (ErrorValue (Some e)) = Returns e"
| "InterfaceError v = Panics"

text \<open>
  The behaviour of a function value under \<open>reflect.Value.Call\<close>: from the arguments and
  the state of the program to the results (or a panic: arguments of the wrong number or
  type, a nil function, a panic in the body) and the new state.
\<close>

type_synonym 'w body = "rvalue list \<Rightarrow> 'w \<Rightarrow> rvalue list run \<times> 'w"

record ProviderOutput =
  Type :: "rtype option"
  startStructType :: "rtype option"
  structFieldName :: string

record ProviderInput =
  Type :: "rtype option"
  Optional :: bool
  startStructType :: "rtype option"
  structFieldName :: string

record 'w ProviderDescriptor =
  Inputs :: "ProviderInput list"
  Outputs :: "ProviderOutput list"
  Fn :: "rvalue list \<Rightarrow> 'w \<Rightarrow> (rvalue list \<times> goerror option) run \<times> 'w"
  Location :: Location
  hasError :: bool

text \<open>
  The dynamic value of the \<open>interface{}\<close> argument: the nil interface, a
  \<open>ProviderDescriptor\<close>, a function value (parameter types, result types, variadic flag,
  code pointer, behaviour), or a value of any other type, given by the name of the type.
  The nil function of a type is a \<open>FuncValue\<close> with code pointer \<open>0\<close> whose call panics.
\<close>

datatype 'w provider =
    NilInterface
  | DescriptorValue "'w ProviderDescriptor"
  | FuncValue "rtype list" "rtype list" bool nat "'w body"
  | PlainValue string

fun ValueType :: "'w provider \<Rightarrow> rtype option" where
  "ValueType NilInterface = None"
| "ValueType (DescriptorValue d) = Some (NamedType ''depinject.ProviderDescriptor'')"
| "ValueType (FuncValue ins outs v pc b) = Some (FuncType ins outs v)"
| "ValueType (PlainValue n) = Some (NamedType n)"

text \<open>\<open>val.Pointer()\<close>, asked of function values only.\<close>

fun Pointer :: "'w provider \<Rightarrow> nat" where
  "Pointer (FuncValue ins outs v pc b) = pc"

text \<open>\<open>val.Call(values)\<close>: on a value that is not a function it panics.\<close>

fun Call :: "'w provider \<Rightarrow> 'w body" where
  "Call (FuncValue ins outs v pc b) values w = b values w"
| "Call p values w = (Panics, w)"

subsection \<open>doExtractProviderDescriptor\<close>

text \<open>The zero \<open>ProviderInput\<close>, the element of \<open>make([]ProviderInput, numIn)\<close>.\<close>

definition zeroInput :: ProviderInput where
  "zeroInput = ProviderInput.make None False None []"

text \<open>The first loop: \<open>in[i] = ProviderInput{Type: typ.In(i)}\<close> for \<open>i\<close> below \<open>numIn\<close>.\<close>

function inputsLoop :: "rtype \<Rightarrow> nat \<Rightarrow> nat \<Rightarrow> ProviderInput list \<Rightarrow> ProviderInput list" where
  "inputsLoop typ numIn i inp =
     (if i < numIn
      then inputsLoop typ numIn (i + 1)
             (inp[i := ProviderInput.make (Some (In typ i)) False None []])
      else inp)"
  by pat_completeness auto
termination
  by (relation "measure (\<lambda>(typ, numIn, i, inp). numIn - i)") auto

text \<open>
  The second loop, over the results: an \<open>error\<close> result anywhere but last ends the
  extraction with an error, the last one sets \<open>errIdx\<close>, every other result is appended
  to \<open>out\<close>. \<open>errIdx\<close> starts at \<open>-1\<close>.
\<close>

function outputsLoop ::
  "rtype \<Rightarrow> Location \<Rightarrow> nat \<Rightarrow> nat \<Rightarrow> int \<Rightarrow> ProviderOutput list
     \<Rightarrow> goerror + int \<times> ProviderOutput list" where
  "outputsLoop typ loc numOut i errIdx out =
     (if i < numOut
      then (let t = Out typ i in
            if t = errType
            then (if int i \<noteq> int numOut - 1
                  then Inl (ErrorNotLast loc)
                  else outputsLoop typ loc numOut (i + 1) (int i) out)
            else outputsLoop typ loc numOut (i + 1) errIdx
                   (out @ [ProviderOutput.make (Some t) None []]))
      else Inr (errIdx, out))"
  by pat_completeness auto
termination
  by (relation "measure (\<lambda>(typ, loc, numOut, i, errIdx, out). numOut - i)") auto

text \<open>
  The closure stored in \<open>Fn\<close>. \<open>res[errIdx]\<close> and \<open>res[0:errIdx]\<close> panic when
  \<open>errIdx\<close> is beyond the results.
\<close>

definition providerFn ::
  "'w provider \<Rightarrow> bool \<Rightarrow> int \<Rightarrow> rvalue list \<Rightarrow> 'w
     \<Rightarrow> (rvalue list \<times> goerror option) run \<times> 'w" where
  "providerFn val hasErr errIdx values w =
     (case Call val values w of
        (Panics, w') \<Rightarrow> (Panics, w')
      | (Returns res, w') \<Rightarrow>
          if hasErr
          then (if nat errIdx < length res
                then (let err = res ! nat errIdx in
                      if \<not> IsZero err
                      then (case InterfaceError err of
                              Panics \<Rightarrow> (Panics, w')
                            | Returns e \<Rightarrow> (Returns ([], Some e), w'))
                      else (Returns (take (nat errIdx) res, None), w'))
                else (Panics, w'))
          else (Returns (res, None), w'))"

text \<open>
  The extractor. \<open>val.Type()\<close> panics on the zero \<open>Value\<close> that \<open>reflect.ValueOf\<close>
  gives for the nil interface. The state of the program is passed through: the function
  reads the type and the code pointer of its argument and nothing else.
\<close>

definition doExtractProviderDescriptor ::
  "(nat \<Rightarrow> Location) \<Rightarrow> 'w provider \<Rightarrow> 'w
     \<Rightarrow> (goerror + 'w ProviderDescriptor) run \<times> 'w" where
  "doExtractProviderDescriptor locationFromPC ctr w =
     (case ValueType ctr of
        None \<Rightarrow> (Panics, w)
      | Some typ \<Rightarrow>
          if Kind typ \<noteq> Func then (Returns (Inl (ExpectedFuncType typ)), w)
          else (let loc = locationFromPC (Pointer ctr) in
                if IsVariadic typ then (Returns (Inl (VariadicProvider loc)), w)
                else (let numIn = NumIn typ;
                          inp = inputsLoop typ numIn 0 (replicate numIn zeroInput);
                          numOut = NumOut typ
                      in case outputsLoop typ loc numOut 0 (- 1) [] of
                           Inl e \<Rightarrow> (Returns (Inl e), w)
                         | Inr (errIdx, out) \<Rightarrow>
                             (let hasErr = (errIdx \<ge> 0) in
                              (Returns (Inr \<lparr> Inputs = inp, Outputs = out,
                                               Fn = providerFn ctr hasErr errIdx,
                                               Location = loc, hasError = hasErr \<rparr>), w)))))"

subsection \<open>ExtractProviderDescriptor\<close>

text \<open>
  \<open>expandStructArgsProvider\<close> is declared outside the files at hand and is a parameter
  here. A provider that is a \<open>ProviderDescriptor\<close> already goes to it as it is.
\<close>

definition ExtractProviderDescriptor ::
  "(nat \<Rightarrow> Location)
     \<Rightarrow> ('w ProviderDescriptor \<Rightarrow> 'w \<Rightarrow> (goerror + 'w ProviderDescriptor) run \<times> 'w)
     \<Rightarrow> 'w provider \<Rightarrow> 'w \<Rightarrow> (goerror + 'w ProviderDescriptor) run \<times> 'w" where
  "ExtractProviderDescriptor locationFromPC expandStructArgsProvider provider w =
     (case provider of
        DescriptorValue rctr \<Rightarrow> expandStructArgsProvider rctr w
      | _ \<Rightarrow>
          (case doExtractProviderDescriptor locationFromPC provider w of
             (Panics, w') \<Rightarrow> (Panics, w')
           | (Returns (Inl err), w') \<Rightarrow> (Returns (Inl err), w')
           | (Returns (Inr rctr), w') \<Rightarrow> expandStructArgsProvider rctr w'))"

subsection \<open>What a caller can compare in the result of an extraction\<close>

text \<open>
  The outcome of an extraction without the closure: the panic, the error, or the
  \<open>Inputs\<close>, \<open>Outputs\<close>, \<open>Location\<close> and \<open>hasError\<close> of the descriptor.
\<close>

fun descriptorFields ::
  "(goerror + 'w ProviderDescriptor) run
     \<Rightarrow> (goerror + ProviderInput list \<times> ProviderOutput list \<times> Location \<times> bool) run" where
  "descriptorFields Panics = Panics"
| "descriptorFields (Returns (Inl e)) = Returns (Inl e)"
| "descriptorFields (Returns (Inr d)) =
     Returns (Inr (Inputs d, Outputs d, Location d, hasError d))"

subsection \<open>Example providers\<close>

text \<open>
  Concrete inputs for the instances below. The state of the program is a counter of the
  calls made; \<open>exampleBody\<close> is a function \<open>func(int) (string, error)\<close> that fails on
  the argument \<open>0\<close>.
\<close>

definition exampleLocation :: "nat \<Rightarrow> Location" where
  "exampleLocation pc = (if pc = 0 then ''nil'' else ''main.NewThing'')"

definition exampleBody :: "nat body" where
  "exampleBody values w =
     (case values of
        [DataValue t n] \<Rightarrow>
          (Returns [DataValue ''string'' n,
                    ErrorValue (if n = 0 then Some (OtherError ''zero'') else None)], w + 1)
      | _ \<Rightarrow> (Panics, w + 1))"

definition exampleProvider :: "nat provider" where
  "exampleProvider =
     FuncValue [NamedType ''int''] [NamedType ''string'', ErrorType] False 4096 exampleBody"

definition exampleDescriptor :: "nat ProviderDescriptor" where
  "exampleDescriptor =
     \<lparr> Inputs = [ProviderInput.make (Some (NamedType ''int'')) False None []],
       Outputs = [ProviderOutput.make (Some (NamedType ''string'')) None []],
       Fn = providerFn exampleProvider True 1,
       Location = ''main.NewThing'',
       hasError = True \<rparr>"

definition variadicProvider :: "nat provider" where
  "variadicProvider =
     FuncValue [NamedType ''int''] [ErrorType, NamedType ''string''] True 4100 exampleBody"

definition misplacedProvider :: "nat provider" where
  "misplacedProvider =
     FuncValue [NamedType ''int''] [ErrorType, NamedType ''string''] False 4104 exampleBody"

section \<open>depinject/internal/util: ordered iteration over maps (util.go)\<close>

subsection \<open>Keys and maps\<close>








subsection \<open>OrderedMapKeys\<close>




subsection \<open>IterateMapOrdered\<close>




subsection \<open>Example maps and callbacks\<close>








section \<open>depinject/internal/util: first letters (util.go)\<close>

subsection \<open>Go strings and runes\<close>

text \<open>
  A Go string is a sequence of bytes, and \<open>len(s)\<close> counts bytes; a rune is a code
  point, an integer. The conversions \<open>[]rune(s)\<close> and \<open>string(runes)\<close> belong to the
  language: the first decodes UTF-8 and gives the rune \<open>U+FFFD\<close> for each byte that
  starts no well-formed sequence, the second encodes each rune in UTF-8 and encodes
  \<open>U+FFFD\<close> for a rune that is no Unicode scalar value.
\<close>

type_synonym byte = "8 word"
type_synonym gostring = "byte list"
type_synonym rune = int

definition RuneError :: rune where
  "RuneError = 0xFFFD"

definition validRune :: "rune \<Rightarrow> bool" where
  "validRune r = (0 \<le> r \<and> r \<le> 0x10FFFF \<and> \<not> (0xD800 \<le> r \<and> r \<le> 0xDFFF))"

text \<open>The length of the sequence that a first byte announces; \<open>0\<close> for a byte that starts none.\<close>

definition seqLen :: "nat \<Rightarrow> nat" where
  "seqLen s0 =
     (if s0 < 0x80 then 1
      else if 0xC2 \<le> s0 \<and> s0 \<le> 0xDF then 2
      else if 0xE0 \<le> s0 \<and> s0 \<le> 0xEF then 3
      else if 0xF0 \<le> s0 \<and> s0 \<le> 0xF4 then 4
      else 0)"

text \<open>The range accepted for the second byte, which depends on the first.\<close>

definition acceptLo :: "nat \<Rightarrow> nat" where
  "acceptLo s0 = (if s0 = 0xE0 then 0xA0 else if s0 = 0xF0 then 0x90 else 0x80)"

definition acceptHi :: "nat \<Rightarrow> nat" where
  "acceptHi s0 = (if s0 = 0xED then 0x9F else if s0 = 0xF4 then 0x8F else 0xBF)"

text \<open>Decoding the first rune of a sequence of byte values: the rune and its width.\<close>

fun decodeBytes :: "nat list \<Rightarrow> rune \<times> nat" where
  "decodeBytes [] = (RuneError, 0)"
| "decodeBytes (s0 # rest) =
     (if s0 < 0x80 then (int s0, 1)
      else if seqLen s0 = 0 then (RuneError, 1)
      else if length (s0 # rest) < seqLen s0 then (RuneError, 1)
      else (let s1 = rest ! 0 in
        if s1 < acceptLo s0 \<or> acceptHi s0 < s1 then (RuneError, 1)
        else if seqLen s0 \<le> 2 then (int ((s0 - 0xC0) * 64 + (s1 - 0x80)), 2)
        else (let s2 = rest ! 1 in
          if s2 < 0x80 \<or> 0xBF < s2 then (RuneError, 1)
          else if seqLen s0 \<le> 3
          then (int ((s0 - 0xE0) * 4096 + (s1 - 0x80) * 64 + (s2 - 0x80)), 3)
          else (let s3 = rest ! 2 in
            if s3 < 0x80 \<or> 0xBF < s3 then (RuneError, 1)
            else (int ((s0 - 0xF0) * 262144 + (s1 - 0x80) * 4096
                        + (s2 - 0x80) * 64 + (s3 - 0x80)), 4)))))"

definition decodeRune :: "gostring \<Rightarrow> rune \<times> nat" where
  "decodeRune s = decodeBytes (map unat s)"

text \<open>\<open>[]rune(s)\<close>: decode rune after rune.\<close>

function toRunes :: "gostring \<Rightarrow> rune list" where
  "toRunes s =
     (if s = [] then []
      else (case decodeRune s of (r, n) \<Rightarrow> r # toRunes (drop n s)))"
  by pat_completeness auto
termination
proof (relation "measure length")
  show "wf (measure length)" by simp
next
  fix s :: gostring and r n
  assume ne: "s \<noteq> []" and rn: "(r, n) = decodeRune s"
  from ne obtain b bs where s: "s = b # bs" by (cases s) auto
  have "0 < snd (decodeBytes (unat b # map unat bs))"
    by (simp add: Let_def)
  then have "0 < n" using rn s by (metis decodeRune_def list.simps(9) snd_conv)
  then show "(drop n s, s) \<in> measure length" using ne by simp
qed

text \<open>The byte values that encode a rune.\<close>

definition encodeBytes :: "rune \<Rightarrow> nat list" where
  "encodeBytes r =
     (if \<not> validRune r then [0xEF, 0xBF, 0xBD]
      else (let n = nat r in
        if n < 0x80 then [n]
        else if n < 0x800 then [0xC0 + n div 64, 0x80 + n mod 64]
        else if n < 0x10000
        then [0xE0 + n div 4096, 0x80 + (n div 64) mod 64, 0x80 + n mod 64]
        else [0xF0 + n div 262144, 0x80 + (n div 4096) mod 64,
              0x80 + (n div 64) mod 64, 0x80 + n mod 64]))"

definition encodeRune :: "rune \<Rightarrow> gostring" where
  "encodeRune r = map of_nat (encodeBytes r)"

text \<open>\<open>string(runes)\<close>: the encodings, one after the other.\<close>

definition fromRunes :: "rune list \<Rightarrow> gostring" where
  "fromRunes runes = concat (map encodeRune runes)"

subsection \<open>StringFirstLower and StringFirstUpper\<close>

text \<open>
  \<open>unicode.ToLower\<close> and \<open>unicode.ToUpper\<close> belong to the Go library and are the
  parameters \<open>ToLower\<close> and \<open>ToUpper\<close>. The assignment to \<open>runes[0]\<close> panics on an
  empty slice.
\<close>

definition StringFirstLower :: "(rune \<Rightarrow> rune) \<Rightarrow> gostring \<Rightarrow> gostring run" where
  "StringFirstLower ToLower s =
     (if length s = 0 then Returns s
      else (let runes = toRunes s in
            if 0 < length runes
            then Returns (fromRunes (runes[0 := ToLower (runes ! 0)]))
            else Panics))"

definition StringFirstUpper :: "(rune \<Rightarrow> rune) \<Rightarrow> gostring \<Rightarrow> gostring run" where
  "StringFirstUpper ToUpper s =
     (if length s = 0 then Returns s
      else (let runes = toRunes s in
            if 0 < length runes
            then Returns (fromRunes (runes[0 := ToUpper (runes ! 0)]))
            else Panics))"

text \<open>
  Stand-ins for the two library functions on the ASCII letters, for the instances
  below.
\<close>

definition asciiToLower :: "rune \<Rightarrow> rune" where
  "asciiToLower r = (if 0x41 \<le> r \<and> r \<le> 0x5A then r + 0x20 else r)"

definition asciiToUpper :: "rune \<Rightarrow> rune" where
  "asciiToUpper r = (if 0x61 \<le> r \<and> r \<le> 0x7A then r - 0x20 else r)"


section \<open>Properties of the extractor\<close>

subsection \<open>The two loops\<close>

lemma inputsLoop_eq:
  "i \<le> numIn \<Longrightarrow> length inp = numIn \<Longrightarrow>
   inputsLoop t numIn i inp =
     take i inp @ map (\<lambda>j. ProviderInput.make (Some (In t j)) False None []) [i..<numIn]"
proof (induction t numIn i inp rule: inputsLoop.induct)
  case (1 t numIn i inp)
  show ?case
  proof (cases "i < numIn")
    case True
    have "inputsLoop t numIn i inp = inputsLoop t numIn (i + 1)
             (inp[i := ProviderInput.make (Some (In t i)) False None []])"
      using True by simp
    also have "\<dots> = take (i + 1) (inp[i := ProviderInput.make (Some (In t i)) False None []])
        @ map (\<lambda>j. ProviderInput.make (Some (In t j)) False None []) [i + 1..<numIn]"
      using True "1.prems" by (intro "1.IH") auto
    also have "take (i + 1) (inp[i := ProviderInput.make (Some (In t i)) False None []])
        = take i inp @ [ProviderInput.make (Some (In t i)) False None []]"
      using True "1.prems" by (simp add: take_Suc_conv_app_nth)
    finally show ?thesis using True by (simp add: upt_conv_Cons)
  next
    case False
    with "1.prems" show ?thesis by simp
  qed
qed

lemma outputsLoop_eq:
  "t = FuncType ins outs v \<Longrightarrow> numOut = length outs \<Longrightarrow> i \<le> numOut \<Longrightarrow>
   outputsLoop t loc numOut i errIdx out =
     (if \<exists>j. i \<le> j \<and> j + 1 < numOut \<and> outs ! j = ErrorType
      then Inl (ErrorNotLast loc)
      else Inr (if i < numOut \<and> outs ! (numOut - 1) = ErrorType then int numOut - 1 else errIdx,
                out @ map (\<lambda>t. ProviderOutput.make (Some t) None [])
                          (filter (\<lambda>t. t \<noteq> ErrorType) (drop i outs))))"
proof (induction t loc numOut i errIdx out rule: outputsLoop.induct)
  case (1 t loc numOut i errIdx out)
  show ?case
  proof (cases "i < numOut")
    case False
    with "1.prems" show ?thesis by simp
  next
    case lt: True
    have dr: "drop i outs = outs ! i # drop (i + 1) outs"
      using lt "1.prems" by (simp add: Cons_nth_drop_Suc)
    have Outi: "Out t i = outs ! i" using "1.prems" by simp
    show ?thesis
    proof (cases "outs ! i = ErrorType")
      case isE: True
      show ?thesis
      proof (cases "i + 1 = numOut")
        case last: True
        have "outputsLoop t loc numOut i errIdx out = outputsLoop t loc numOut (i + 1) (int i) out"
          using lt isE Outi last by (simp add: errType_def)
        also have "\<dots> = Inr (int i, out)"
          using last by simp
        finally have eq: "outputsLoop t loc numOut i errIdx out = Inr (int i, out)" .
        have nm: "numOut - 1 = i" using last by simp
        have noex: "\<not> (\<exists>j. i \<le> j \<and> j + 1 < numOut \<and> outs ! j = ErrorType)"
          using last by auto
        have dr1: "drop i outs = [ErrorType]" using dr isE last "1.prems" by simp
        show ?thesis unfolding eq using noex lt isE nm dr1 by (simp del: outputsLoop.simps)
      next
        case notlast: False
        have "outputsLoop t loc numOut i errIdx out = Inl (ErrorNotLast loc)"
          using lt isE Outi notlast by (simp add: errType_def) 
        moreover have "\<exists>j. i \<le> j \<and> j + 1 < numOut \<and> outs ! j = ErrorType"
          using lt isE notlast by (intro exI[of _ i]) auto
        ultimately show ?thesis by simp
      qed
    next
      case notE: False
      have step: "outputsLoop t loc numOut i errIdx out =
            outputsLoop t loc numOut (i + 1) errIdx (out @ [ProviderOutput.make (Some (outs ! i)) None []])"
        using lt notE Outi by (simp add: errType_def Let_def)
      have IH: "outputsLoop t loc numOut (i + 1) errIdx (out @ [ProviderOutput.make (Some (outs ! i)) None []]) =
         (if \<exists>j. i + 1 \<le> j \<and> j + 1 < numOut \<and> outs ! j = ErrorType
      then Inl (ErrorNotLast loc)
      else Inr (if i + 1 < numOut \<and> outs ! (numOut - 1) = ErrorType then int numOut - 1 else errIdx,
                (out @ [ProviderOutput.make (Some (outs ! i)) None []]) @ map (\<lambda>t. ProviderOutput.make (Some t) None [])
                          (filter (\<lambda>t. t \<noteq> ErrorType) (drop (i + 1) outs))))"
        using lt notE Outi "1.prems" "1.IH"(2)[of "outs ! i"] by (simp add: errType_def)
      have ex: "(\<exists>j. i \<le> j \<and> j + 1 < numOut \<and> outs ! j = ErrorType) \<longleftrightarrow>
                (\<exists>j. i + 1 \<le> j \<and> j + 1 < numOut \<and> outs ! j = ErrorType)"
        using notE by (metis Suc_eq_plus1 Suc_leI le_neq_implies_less add_leD1 le_add1 order_trans)
      have lastc: "(i < numOut \<and> outs ! (numOut - 1) = ErrorType) \<longleftrightarrow>
                   (i + 1 < numOut \<and> outs ! (numOut - 1) = ErrorType)"
        using lt notE by (cases "i + 1 = numOut") auto
      have app: "(out @ [ProviderOutput.make (Some (outs ! i)) None []]) @
                 map (\<lambda>t. ProviderOutput.make (Some t) None [])
                   (filter (\<lambda>t. t \<noteq> ErrorType) (drop (i + 1) outs)) =
                 out @ map (\<lambda>t. ProviderOutput.make (Some t) None [])
                   (filter (\<lambda>t. t \<noteq> ErrorType) (drop i outs))"
        unfolding dr using notE by simp
      show ?thesis unfolding step IH app ex lastc ..
    qed
  qed
qed


subsection \<open>What the extractor returns on a function\<close>

lemma filter_noerr_butlast:
  assumes "\<not> (\<exists>j. j + 1 < length outs \<and> outs ! j = ErrorType)"
  shows "filter (\<lambda>t. t \<noteq> ErrorType) outs =
           (if outs \<noteq> [] \<and> last outs = ErrorType then butlast outs else outs)"
proof (cases "outs = []")
  case True
  then show ?thesis by simp
next
  case False
  then have split: "outs = butlast outs @ [last outs]" by simp
  have "\<forall>x \<in> set (butlast outs). x \<noteq> ErrorType"
  proof
    fix x assume "x \<in> set (butlast outs)"
    then obtain j where j: "j < length (butlast outs)" "butlast outs ! j = x"
      by (auto simp: in_set_conv_nth)
    then have "j + 1 < length outs" "outs ! j = x"
      by (auto simp: nth_butlast)
    with assms show "x \<noteq> ErrorType" by blast
  qed
  then have fb: "filter (\<lambda>t. t \<noteq> ErrorType) (butlast outs) = butlast outs"
    by (simp add: filter_id_conv)
  have "filter (\<lambda>t. t \<noteq> ErrorType) outs =
          filter (\<lambda>t. t \<noteq> ErrorType) (butlast outs @ [last outs])"
    using split by simp
  also have "\<dots> = butlast outs @ (if last outs = ErrorType then [] else [last outs])"
    using fb by simp
  finally show ?thesis using False split by (cases "last outs = ErrorType") auto
qed

lemma doExtract_func:
  assumes "ValueType ctr = Some (FuncType ins outs v)"
  shows "doExtractProviderDescriptor L ctr w =
    (Returns
      (if v then Inl (VariadicProvider (L (Pointer ctr)))
       else if \<exists>j. j + 1 < length outs \<and> outs ! j = ErrorType
       then Inl (ErrorNotLast (L (Pointer ctr)))
       else Inr \<lparr> Inputs = map (\<lambda>t. ProviderInput.make (Some t) False None []) ins,
                  Outputs = map (\<lambda>t. ProviderOutput.make (Some t) None [])
                              (filter (\<lambda>t. t \<noteq> ErrorType) outs),
                  Fn = providerFn ctr (outs \<noteq> [] \<and> last outs = ErrorType)
                         (if outs \<noteq> [] \<and> last outs = ErrorType
                          then int (length outs) - 1 else - 1),
                  Location = L (Pointer ctr),
                  hasError = (outs \<noteq> [] \<and> last outs = ErrorType) \<rparr>), w)"
proof -
  have inl: "inputsLoop (FuncType ins outs u) (length ins) 0 (replicate (length ins) zeroInput) =
             map (\<lambda>t. ProviderInput.make (Some t) False None []) ins" for u
  proof -
    let ?t = "FuncType ins outs u"
    have "inputsLoop ?t (length ins) 0 (replicate (length ins) zeroInput) =
          map (\<lambda>j. ProviderInput.make (Some (In ?t j)) False None []) [0..<length ins]"
      using inputsLoop_eq[of 0 "length ins" "replicate (length ins) zeroInput" ?t] by simp
    also have "\<dots> = map (\<lambda>t. ProviderInput.make (Some t) False None [])
                        (map (\<lambda>j. ins ! j) [0..<length ins])"
      by simp
    also have "map (\<lambda>j. ins ! j) [0..<length ins] = ins" by (rule map_nth)
    finally show ?thesis .
  qed
  have outl: "outputsLoop (FuncType ins outs u) loc (length outs) 0 (- 1) [] =
     (if \<exists>j. j + 1 < length outs \<and> outs ! j = ErrorType
      then Inl (ErrorNotLast loc)
      else Inr (if outs \<noteq> [] \<and> last outs = ErrorType then int (length outs) - 1 else - 1,
                map (\<lambda>t. ProviderOutput.make (Some t) None [])
                          (filter (\<lambda>t. t \<noteq> ErrorType) outs)))" for loc u
  proof -
    let ?t = "FuncType ins outs u"
    have c: "(0 < length outs \<and> outs ! (length outs - 1) = ErrorType) \<longleftrightarrow>
             (outs \<noteq> [] \<and> last outs = ErrorType)"
      by (cases "outs = []") (simp_all add: last_conv_nth)
    have "outputsLoop ?t loc (length outs) 0 (- 1) [] =
     (if \<exists>j. 0 \<le> j \<and> j + 1 < length outs \<and> outs ! j = ErrorType
      then Inl (ErrorNotLast loc)
      else Inr (if 0 < length outs \<and> outs ! (length outs - 1) = ErrorType
                then int (length outs) - 1 else - 1,
                [] @ map (\<lambda>t. ProviderOutput.make (Some t) None [])
                          (filter (\<lambda>t. t \<noteq> ErrorType) (drop 0 outs))))"
      by (rule outputsLoop_eq[of ?t ins outs u]) simp_all
    then show ?thesis unfolding c by (simp del: outputsLoop.simps)
  qed
  show ?thesis
  proof (cases v)
    case True
    then show ?thesis
      unfolding doExtractProviderDescriptor_def assms by simp
  next
    case nv: False
    show ?thesis
    proof (cases "\<exists>j. j + 1 < length outs \<and> outs ! j = ErrorType")
      case True
      then show ?thesis
        unfolding doExtractProviderDescriptor_def assms using nv
        by (simp add: outl Let_def del: outputsLoop.simps inputsLoop.simps)
    next
      case ok: False
      show ?thesis
      proof (cases "outs \<noteq> [] \<and> last outs = ErrorType")
        case True
        then have "0 \<le> int (length outs) - 1" by (cases outs) auto
        with True ok nv show ?thesis
          unfolding doExtractProviderDescriptor_def assms
          by (simp add: inl outl Let_def del: outputsLoop.simps inputsLoop.simps)
      next
        case False
        then have f: "(outs \<noteq> [] \<and> last outs = ErrorType) = False" by simp
        from ok nv show ?thesis
          unfolding doExtractProviderDescriptor_def assms f
          by (simp add: inl outl f Let_def del: outputsLoop.simps inputsLoop.simps)
      qed
    qed
  qed
qed

lemma doExtract_accepted:
  assumes "doExtractProviderDescriptor L ctr w = (Returns (Inr d), w')"
  shows "\<exists>ins outs. ValueType ctr = Some (FuncType ins outs False)
            \<and> \<not> (\<exists>j. j + 1 < length outs \<and> outs ! j = ErrorType)
            \<and> w' = w
            \<and> d = \<lparr> Inputs = map (\<lambda>t. ProviderInput.make (Some t) False None []) ins,
                      Outputs = map (\<lambda>t. ProviderOutput.make (Some t) None [])
                                  (filter (\<lambda>t. t \<noteq> ErrorType) outs),
                      Fn = providerFn ctr (outs \<noteq> [] \<and> last outs = ErrorType)
                             (if outs \<noteq> [] \<and> last outs = ErrorType
                              then int (length outs) - 1 else - 1),
                      Location = L (Pointer ctr),
                      hasError = (outs \<noteq> [] \<and> last outs = ErrorType) \<rparr>"
proof (cases "ValueType ctr")
  case None
  with assms show ?thesis by (simp add: doExtractProviderDescriptor_def)
next
  case (Some t)
  show ?thesis
  proof (cases t)
    case ErrorType
    with Some assms show ?thesis by (simp add: doExtractProviderDescriptor_def)
  next
    case (NamedType n)
    with Some assms show ?thesis by (simp add: doExtractProviderDescriptor_def)
  next
    case (FuncType ins outs v)
    with Some have vt: "ValueType ctr = Some (FuncType ins outs v)" by simp
    note eq = assms[unfolded doExtract_func[OF vt]]
    have nv: "\<not> v" using eq by (auto split: if_splits)
    have ok: "\<not> (\<exists>j. j + 1 < length outs \<and> outs ! j = ErrorType)"
      using eq nv by (auto split: if_splits)
    have "w' = w" using eq by simp
    moreover have "d = \<lparr> Inputs = map (\<lambda>t. ProviderInput.make (Some t) False None []) ins,
                      Outputs = map (\<lambda>t. ProviderOutput.make (Some t) None [])
                                  (filter (\<lambda>t. t \<noteq> ErrorType) outs),
                      Fn = providerFn ctr (outs \<noteq> [] \<and> last outs = ErrorType)
                             (if outs \<noteq> [] \<and> last outs = ErrorType
                              then int (length outs) - 1 else - 1),
                      Location = L (Pointer ctr),
                      hasError = (outs \<noteq> [] \<and> last outs = ErrorType) \<rparr>"
      using eq nv ok by (simp only: if_False if_not_P prod.inject run.inject sum.inject)
    ultimately have "ValueType ctr = Some (FuncType ins outs False)
            \<and> \<not> (\<exists>j. j + 1 < length outs \<and> outs ! j = ErrorType)
            \<and> w' = w
            \<and> d = \<lparr> Inputs = map (\<lambda>t. ProviderInput.make (Some t) False None []) ins,
                      Outputs = map (\<lambda>t. ProviderOutput.make (Some t) None [])
                                  (filter (\<lambda>t. t \<noteq> ErrorType) outs),
                      Fn = providerFn ctr (outs \<noteq> [] \<and> last outs = ErrorType)
                             (if outs \<noteq> [] \<and> last outs = ErrorType
                              then int (length outs) - 1 else - 1),
                      Location = L (Pointer ctr),
                      hasError = (outs \<noteq> [] \<and> last outs = ErrorType) \<rparr>"
      using vt nv ok by simp
    then show ?thesis by (intro exI)
  qed
qed

section \<open>The claims on the extractor\<close>

text \<open>
  Claim C5. For every value whose dynamic type is not a function type, extraction fails:
  \<open>doExtractProviderDescriptor\<close> returns the error "expected a Func type, got ..." with
  that type, and no descriptor; the state of the program is as before.
\<close>

theorem C5_not_a_function:
  assumes "ValueType ctr = Some t" and "Kind t \<noteq> Func"
  shows "doExtractProviderDescriptor L ctr w = (Returns (Inl (ExpectedFuncType t)), w)"
  using assms by (simp add: doExtractProviderDescriptor_def)

theorem C5_not_a_function_witness:
  "ValueType (PlainValue ''int'' :: nat provider) = Some (NamedType ''int'')
   \<and> Kind (NamedType ''int'') \<noteq> Func
   \<and> doExtractProviderDescriptor exampleLocation (PlainValue ''int'') (0::nat) =
       (Returns (Inl (ExpectedFuncType (NamedType ''int''))), 0)"
proof -
  have h1: "ValueType (PlainValue ''int'' :: nat provider) = Some (NamedType ''int'')"
    by simp
  have h2: "Kind (NamedType ''int'') \<noteq> Func" by simp
  show ?thesis using h1 h2 C5_not_a_function[OF h1 h2, of exampleLocation 0] by simp
qed

text \<open>
  Claim C4. For every variadic function passed as a provider, extraction fails:
  \<open>doExtractProviderDescriptor\<close> returns the error "variadic function can't be used as
  a provider" with the location of the function, and no descriptor.
\<close>

theorem C4_variadic_rejected:
  assumes "ValueType ctr = Some (FuncType ins outs True)"
  shows "doExtractProviderDescriptor L ctr w =
           (Returns (Inl (VariadicProvider (L (Pointer ctr)))), w)"
  using assms by (simp add: doExtractProviderDescriptor_def)

theorem C4_variadic_rejected_witness:
  "ValueType variadicProvider =
     Some (FuncType [NamedType ''int''] [ErrorType, NamedType ''string''] True)
   \<and> doExtractProviderDescriptor exampleLocation variadicProvider 0 =
       (Returns (Inl (VariadicProvider ''main.NewThing'')), 0)"
proof -
  have h1: "ValueType variadicProvider =
              Some (FuncType [NamedType ''int''] [ErrorType, NamedType ''string''] True)"
    by (simp add: variadicProvider_def)
  show ?thesis using h1 C4_variadic_rejected[OF h1, of exampleLocation 0]
    by (simp add: variadicProvider_def exampleLocation_def)
qed

text \<open>
  Claim C1, as stated: every callable of function type with an \<open>error\<close> result before
  the last position is refused with the error "output error parameter is not last
  parameter". A variadic function with such a result is refused by the earlier variadic
  check instead, with the other error.
\<close>

theorem C1_variadic_counterexample:
  "ValueType variadicProvider =
     Some (FuncType [NamedType ''int''] [ErrorType, NamedType ''string''] True)
   \<and> fst (doExtractProviderDescriptor exampleLocation variadicProvider 0) =
       Returns (Inl (VariadicProvider ''main.NewThing''))
   \<and> fst (doExtractProviderDescriptor exampleLocation variadicProvider 0) \<noteq>
       Returns (Inl (ErrorNotLast ''main.NewThing''))"
  by (simp add: variadicProvider_def exampleLocation_def doExtractProviderDescriptor_def)

text \<open>
  Claim C1, amended. For every callable of function type whose results include the type
  \<open>error\<close> at a position other than the last, \<open>doExtractProviderDescriptor\<close> returns an
  error and no descriptor: the error "output error parameter is not last parameter" when
  the function is not variadic, the variadic error when it is.
\<close>

theorem C1_misplaced_error_rejected:
  assumes "ValueType ctr = Some (FuncType ins outs v)"
    and "j + 1 < length outs" and "outs ! j = ErrorType"
  shows "doExtractProviderDescriptor L ctr w =
           (Returns (Inl (if v then VariadicProvider (L (Pointer ctr))
                          else ErrorNotLast (L (Pointer ctr)))), w)"
proof -
  have "\<exists>j. j + 1 < length outs \<and> outs ! j = ErrorType"
    using assms(2,3) by blast
  then show ?thesis
    unfolding doExtract_func[OF assms(1)] by simp
qed

theorem C1_misplaced_error_rejected_witness:
  "ValueType misplacedProvider =
     Some (FuncType [NamedType ''int''] [ErrorType, NamedType ''string''] False)
   \<and> 0 + 1 < length [ErrorType, NamedType ''string'']
   \<and> [ErrorType, NamedType ''string''] ! 0 = ErrorType
   \<and> doExtractProviderDescriptor exampleLocation misplacedProvider 0 =
       (Returns (Inl (ErrorNotLast ''main.NewThing'')), 0)"
proof -
  have h1: "ValueType misplacedProvider =
              Some (FuncType [NamedType ''int''] [ErrorType, NamedType ''string''] False)"
    by (simp add: misplacedProvider_def)
  have h2: "0 + 1 < length [ErrorType, NamedType ''string'']" by simp
  have h3: "[ErrorType, NamedType ''string''] ! 0 = ErrorType" by simp
  show ?thesis
    using h1 h2 h3 C1_misplaced_error_rejected[OF h1 h2 h3, of exampleLocation 0]
    by (simp add: misplacedProvider_def exampleLocation_def)
qed

text \<open>
  Claim C3. For every callable that \<open>doExtractProviderDescriptor\<close> accepts, the
  \<open>Outputs\<close> of the descriptor are the result types of the callable other than \<open>error\<close>,
  in the order of declaration, each with no struct marks; \<open>error\<close> occurs among the
  results in the last position at most, where it is left out of \<open>Outputs\<close> and sets
  \<open>hasError\<close>.
\<close>

theorem C3_outputs:
  assumes "doExtractProviderDescriptor L ctr w = (Returns (Inr d), w')"
  shows "\<exists>ins outs. ValueType ctr = Some (FuncType ins outs False)
           \<and> Outputs d = map (\<lambda>t. ProviderOutput.make (Some t) None [])
                              (filter (\<lambda>t. t \<noteq> ErrorType) outs)
           \<and> filter (\<lambda>t. t \<noteq> ErrorType) outs =
               (if hasError d then butlast outs else outs)
           \<and> (hasError d \<longleftrightarrow> outs \<noteq> [] \<and> last outs = ErrorType)"
proof -
  from doExtract_accepted[OF assms] obtain ins outs where
    vt: "ValueType ctr = Some (FuncType ins outs False)" and
    ok: "\<not> (\<exists>j. j + 1 < length outs \<and> outs ! j = ErrorType)" and
    o: "Outputs d = map (\<lambda>t. ProviderOutput.make (Some t) None [])
                        (filter (\<lambda>t. t \<noteq> ErrorType) outs)" and
    h: "hasError d \<longleftrightarrow> outs \<noteq> [] \<and> last outs = ErrorType"
    by force
  have f: "filter (\<lambda>t. t \<noteq> ErrorType) outs = (if hasError d then butlast outs else outs)"
    using filter_noerr_butlast[OF ok] h by simp
  from vt o f h show ?thesis by blast
qed

theorem C3_outputs_witness:
  "doExtractProviderDescriptor exampleLocation exampleProvider 0 =
     (Returns (Inr exampleDescriptor), 0)
   \<and> ValueType exampleProvider =
       Some (FuncType [NamedType ''int''] [NamedType ''string'', ErrorType] False)
   \<and> Outputs exampleDescriptor = [ProviderOutput.make (Some (NamedType ''string'')) None []]
   \<and> hasError exampleDescriptor"
proof -
  have vt: "ValueType exampleProvider =
              Some (FuncType [NamedType ''int''] [NamedType ''string'', ErrorType] False)"
    by (simp add: exampleProvider_def)
  have h1: "doExtractProviderDescriptor exampleLocation exampleProvider 0 =
              (Returns (Inr exampleDescriptor), 0)"
    unfolding doExtract_func[OF vt]
    by (simp add: exampleDescriptor_def exampleProvider_def exampleLocation_def)
  show ?thesis using h1 vt C3_outputs[OF h1]
    by (simp add: exampleDescriptor_def)
qed

text \<open>
  Claim C6. For every (non-variadic) function that \<open>doExtractProviderDescriptor\<close>
  accepts, the \<open>Inputs\<close> of the descriptor have one entry for each parameter, in the
  order of declaration: entry \<open>i\<close> has the type of parameter \<open>i\<close> and \<open>Optional\<close> false.
\<close>

theorem C6_inputs:
  assumes "doExtractProviderDescriptor L ctr w = (Returns (Inr d), w')"
  shows "\<exists>ins outs. ValueType ctr = Some (FuncType ins outs False)
           \<and> length (Inputs d) = length ins
           \<and> (\<forall>i < length ins. ProviderInput.Type (Inputs d ! i) = Some (ins ! i)
                                   \<and> \<not> Optional (Inputs d ! i))"
proof -
  from doExtract_accepted[OF assms] obtain ins outs where
    vt: "ValueType ctr = Some (FuncType ins outs False)" and
    i: "Inputs d = map (\<lambda>t. ProviderInput.make (Some t) False None []) ins"
    by force
  have "length (Inputs d) = length ins" using i by simp
  moreover have "\<forall>i < length ins. ProviderInput.Type (Inputs d ! i) = Some (ins ! i)
                                   \<and> \<not> Optional (Inputs d ! i)"
    using i by (simp add: ProviderInput.make_def)
  ultimately show ?thesis using vt by blast
qed

theorem C6_inputs_witness:
  "doExtractProviderDescriptor exampleLocation exampleProvider 0 =
     (Returns (Inr exampleDescriptor), 0)
   \<and> ValueType exampleProvider =
       Some (FuncType [NamedType ''int''] [NamedType ''string'', ErrorType] False)
   \<and> length (Inputs exampleDescriptor) = 1
   \<and> ProviderInput.Type (Inputs exampleDescriptor ! 0) = Some (NamedType ''int'')
   \<and> \<not> Optional (Inputs exampleDescriptor ! 0)"
proof -
  have vt: "ValueType exampleProvider =
              Some (FuncType [NamedType ''int''] [NamedType ''string'', ErrorType] False)"
    by (simp add: exampleProvider_def)
  have h1: "doExtractProviderDescriptor exampleLocation exampleProvider 0 =
              (Returns (Inr exampleDescriptor), 0)"
    unfolding doExtract_func[OF vt]
    by (simp add: exampleDescriptor_def exampleProvider_def exampleLocation_def)
  show ?thesis using h1 vt C6_inputs[OF h1]
    by (simp add: exampleDescriptor_def ProviderInput.make_def)
qed

text \<open>
  Claim C9. A provider whose dynamic type is \<open>ProviderDescriptor\<close> goes to
  \<open>expandStructArgsProvider\<close> as it is: \<open>ExtractProviderDescriptor\<close> applies none of
  the checks of \<open>doExtractProviderDescriptor\<close> (which would refuse the value, a struct,
  as not a function), so whatever the descriptor holds, the only failures are those of
  the expansion.
\<close>

theorem C9_descriptor_bypass:
  "ExtractProviderDescriptor L expand (DescriptorValue d) w = expand d w
   \<and> doExtractProviderDescriptor L (DescriptorValue d) w =
       (Returns (Inl (ExpectedFuncType (NamedType ''depinject.ProviderDescriptor''))), w)"
  by (simp add: ExtractProviderDescriptor_def doExtractProviderDescriptor_def)
text \<open>
  Claim C2. Let a function whose last result has type \<open>error\<close> be extracted, and let
  the underlying call on the given arguments return results of the declared types.
  Then \<open>Fn\<close> returns, in the state the call left; its error is non-nil exactly when
  the last result of the call is a non-nil error, in which case it is that error and no
  values are returned; otherwise the values are the results before the last, in order.
\<close>

theorem C2_fn_error_short_circuit:
  assumes ext: "doExtractProviderDescriptor L ctr w0 = (Returns (Inr d), w0')"
    and vt: "ValueType ctr = Some (FuncType ins outs v)"
    and ne: "outs \<noteq> []" and le: "last outs = ErrorType"
    and call: "Call ctr values w = (Returns res, w')"
    and typed: "map TypeOf res = outs"
  shows "\<exists>vals err. Fn d values w = (Returns (vals, err), w')
           \<and> (err \<noteq> None \<longleftrightarrow> last res \<noteq> ErrorValue None)
           \<and> (err \<noteq> None \<longrightarrow> vals = [] \<and> last res = ErrorValue err)
           \<and> (err = None \<longrightarrow> vals = butlast res)"
proof -
  from doExtract_accepted[OF ext] vt ne le
  have fn: "Fn d = providerFn ctr True (int (length outs) - 1)"
    by auto
  have len: "length res = length outs" using typed by (metis length_map)
  have rne: "res \<noteq> []" using len ne by auto
  have idx: "nat (int (length outs) - 1) = length res - 1" using len by simp
  have lt: "length res - 1 < length res" using rne by simp
  have nth: "res ! (length res - 1) = last res" using rne by (simp add: last_conv_nth)
  have "TypeOf (last res) = last outs"
    using typed rne by (metis last_map)
  then have "TypeOf (last res) = ErrorType" using le by simp
  then obtain x where lr: "last res = ErrorValue x"
    by (cases "last res") auto
  have tk: "take (length res - 1) res = butlast res" by (simp add: butlast_conv_take)
  show ?thesis
  proof (cases x)
    case None
    have "Fn d values w = (Returns (butlast res, None), w')"
      unfolding fn providerFn_def call idx using lt nth lr None tk by simp
    then show ?thesis using lr None by simp
  next
    case (Some e)
    have "Fn d values w = (Returns ([], Some e), w')"
      unfolding fn providerFn_def call idx using lt nth lr Some by simp
    then show ?thesis using lr Some by simp
  qed
qed

theorem C2_fn_error_short_circuit_witness:
  "doExtractProviderDescriptor exampleLocation exampleProvider 0 =
     (Returns (Inr exampleDescriptor), 0)
   \<and> Call exampleProvider [DataValue ''int'' 0] 5 =
       (Returns [DataValue ''string'' 0, ErrorValue (Some (OtherError ''zero''))], 6)
   \<and> Fn exampleDescriptor [DataValue ''int'' 0] 5 =
       (Returns ([], Some (OtherError ''zero'')), 6)"
proof -
  let ?outs = "[NamedType ''string'', ErrorType]"
  let ?res = "[DataValue ''string'' 0, ErrorValue (Some (OtherError ''zero''))]"
  have vt: "ValueType exampleProvider = Some (FuncType [NamedType ''int''] ?outs False)"
    by (simp add: exampleProvider_def)
  have h1: "doExtractProviderDescriptor exampleLocation exampleProvider 0 =
              (Returns (Inr exampleDescriptor), 0)"
    unfolding doExtract_func[OF vt]
    by (simp add: exampleDescriptor_def exampleProvider_def exampleLocation_def)
  have h3: "?outs \<noteq> []" by simp
  have h4: "last ?outs = ErrorType" by simp
  have h5: "Call exampleProvider [DataValue ''int'' 0] 5 = (Returns ?res, 6)"
    by (simp add: exampleProvider_def exampleBody_def)
  have h6: "map TypeOf ?res = ?outs" by simp
  from C2_fn_error_short_circuit[OF h1 vt h3 h4 h5 h6]
  have "Fn exampleDescriptor [DataValue ''int'' 0] 5 =
          (Returns ([], Some (OtherError ''zero'')), 6)"
    by auto
  with h1 h5 show ?thesis by simp
qed

text \<open>
  Claim C8. Extraction has no side effect: it leaves the state of the program as it
  was; its result is the same in every state; what it returns apart from the closure
  (the error, or \<open>Inputs\<close>, \<open>Outputs\<close>, \<open>Location\<close> and \<open>hasError\<close>) does not depend
  on the behaviour of the callable, which is therefore not run; the state changes only
  when the \<open>Fn\<close> of the descriptor is invoked, and then as the callable changes it.
\<close>

theorem C8_extraction_pure:
  "snd (doExtractProviderDescriptor L ctr w) = w
   \<and> fst (doExtractProviderDescriptor L ctr w) = fst (doExtractProviderDescriptor L ctr w')
   \<and> descriptorFields (fst (doExtractProviderDescriptor L (FuncValue ins outs v pc b) w)) =
       descriptorFields (fst (doExtractProviderDescriptor L (FuncValue ins outs v pc b') w'))
   \<and> (fst (doExtractProviderDescriptor L (FuncValue ins outs v pc b) w) = Returns (Inr d)
        \<longrightarrow> snd (Fn d values w1) = snd (b values w1))"
proof -
  have shape: "\<exists>r. \<forall>w. doExtractProviderDescriptor L c w = (r, w)" for c :: "'a provider"
  proof (cases "ValueType c")
    case None
    then show ?thesis by (simp add: doExtractProviderDescriptor_def)
  next
    case (Some t)
    show ?thesis
    proof (cases t)
      case ErrorType
      with Some show ?thesis by (simp add: doExtractProviderDescriptor_def)
    next
      case (NamedType n)
      with Some show ?thesis by (simp add: doExtractProviderDescriptor_def)
    next
      case (FuncType ins outs v)
      with Some have vt: "ValueType c = Some (FuncType ins outs v)" by simp
      show ?thesis unfolding doExtract_func[OF vt] by blast
    qed
  qed
  from shape[of ctr] obtain r where r: "\<And>w. doExtractProviderDescriptor L ctr w = (r, w)"
    by blast
  have p1: "snd (doExtractProviderDescriptor L ctr w) = w" using r by simp
  have p2: "fst (doExtractProviderDescriptor L ctr w) = fst (doExtractProviderDescriptor L ctr w')"
    using r by simp
  have vt: "ValueType (FuncValue ins outs v pc c) = Some (FuncType ins outs v)"
    for c :: "'a body" by simp
  have p3: "descriptorFields (fst (doExtractProviderDescriptor L (FuncValue ins outs v pc b) w)) =
       descriptorFields (fst (doExtractProviderDescriptor L (FuncValue ins outs v pc b') w'))"
    unfolding doExtract_func[OF vt] by auto
  have p4: "snd (Fn d values w1) = snd (b values w1)"
    if "fst (doExtractProviderDescriptor L (FuncValue ins outs v pc b) w) = Returns (Inr d)"
  proof -
    from that have "doExtractProviderDescriptor L (FuncValue ins outs v pc b) w = (Returns (Inr d), w)"
      unfolding doExtract_func[OF vt] by simp
    from doExtract_accepted[OF this] obtain h e where
      fn: "Fn d = providerFn (FuncValue ins outs v pc b) h e" by force
    show ?thesis unfolding fn providerFn_def
      by (cases "b values w1") (auto split: run.splits simp: Let_def)
  qed
  from p1 p2 p3 p4 show ?thesis by blast
qed

theorem C8_extraction_pure_witness:
  "snd (doExtractProviderDescriptor exampleLocation exampleProvider 3) = 3
   \<and> fst (doExtractProviderDescriptor exampleLocation exampleProvider 3) =
       Returns (Inr exampleDescriptor)
   \<and> snd (Fn exampleDescriptor [DataValue ''int'' 1] 3) = 4"
proof -
  have vt: "ValueType exampleProvider =
              Some (FuncType [NamedType ''int''] [NamedType ''string'', ErrorType] False)"
    by (simp add: exampleProvider_def)
  have h1: "fst (doExtractProviderDescriptor exampleLocation
              (FuncValue [NamedType ''int''] [NamedType ''string'', ErrorType] False 4096 exampleBody) 3)
            = Returns (Inr exampleDescriptor)"
    unfolding doExtract_func[OF vt[unfolded exampleProvider_def]]
    by (simp add: exampleDescriptor_def exampleProvider_def exampleLocation_def)
  from C8_extraction_pure[of exampleLocation exampleProvider 3 3 "[NamedType ''int'']"
        "[NamedType ''string'', ErrorType]" False 4096 exampleBody exampleBody
        exampleDescriptor "[DataValue ''int'' 1]" 3] h1
  show ?thesis by (simp add: exampleProvider_def exampleBody_def)
qed

section \<open>Properties of the ordered iteration\<close>

subsection \<open>Sorting keys without NaN\<close>











subsection \<open>Reading the map\<close>





subsection \<open>The loop\<close>



section \<open>The claim on the ordered iteration\<close>




section \<open>Properties of the first-letter functions\<close>

subsection \<open>Decoding an encoded rune\<close>

declare toRunes.simps [simp del]

lemma div4096: "(n::nat) div 4096 = n div 64 div 64"
proof -
  have "n div (64 * 64) = n div 64 div 64" by (rule div_mult2_eq)
  then show ?thesis by simp
qed

lemma div262144: "(n::nat) div 262144 = n div 64 div 64 div 64"
proof -
  have "n div (4096 * 64) = n div 4096 div 64" by (rule div_mult2_eq)
  then show ?thesis by (simp add: div4096)
qed

lemma split3:
  fixes n :: nat
  defines "d \<equiv> n div 4096" and "e \<equiv> (n div 64) mod 64" and "m \<equiv> n mod 64"
  shows "n = d * 4096 + e * 64 + m \<and> m < 64 \<and> e < 64"
proof -
  have 1: "n = (n div 64) * 64 + m" by (simp add: m_def)
  have 2: "n div 64 = d * 64 + e" by (simp add: d_def e_def div4096)
  have "n = (d * 64 + e) * 64 + m" using 1 2 by simp
  then show ?thesis by (simp add: m_def e_def algebra_simps)
qed

lemma split4:
  fixes n :: nat
  defines "d \<equiv> n div 262144" and "f \<equiv> (n div 4096) mod 64"
    and "e \<equiv> (n div 64) mod 64" and "m \<equiv> n mod 64"
  shows "n = d * 262144 + f * 4096 + e * 64 + m \<and> m < 64 \<and> e < 64 \<and> f < 64"
proof -
  have 1: "n = (n div 64) * 64 + m" by (simp add: m_def)
  have 2: "n div 64 = (n div 4096) * 64 + e" by (simp add: e_def div4096)
  have 3: "n div 4096 = d * 64 + f" by (simp add: d_def f_def div262144 div4096)
  have "n = ((d * 64 + f) * 64 + e) * 64 + m" using 1 2 3 by simp
  then show ?thesis by (simp add: m_def e_def f_def algebra_simps)
qed

lemma validRune_RuneError: "validRune RuneError"
  by (simp add: validRune_def RuneError_def)

lemma encodeBytes_invalid: "\<not> validRune r \<Longrightarrow> encodeBytes r = encodeBytes RuneError"
  by (simp add: encodeBytes_def validRune_RuneError RuneError_def Let_def)

lemma encodeBytes_nonempty: "encodeBytes r \<noteq> []"
  by (simp add: encodeBytes_def Let_def)

lemma encodeBytes_bound:
  assumes b: "b \<in> set (encodeBytes r)"
  shows "b < 256"
proof (cases "validRune r")
  case False
  then show ?thesis using b by (auto simp: encodeBytes_def)
next
  case True
  then obtain n where r: "r = int n"
    by (auto simp: validRune_def intro: that[of "nat r"])
  have le: "n \<le> 0x10FFFF" using True by (simp add: r validRune_def)
  have m: "n mod 64 < 64" "(n div 64) mod 64 < 64" "(n div 4096) mod 64 < 64" by simp_all
  have d2: "n < 0x800 \<Longrightarrow> n div 64 < 32" by simp
  have d3: "n < 0x10000 \<Longrightarrow> n div 4096 < 16" by simp
  have d4: "n div 262144 < 5" using le by simp
  from b True show ?thesis
    unfolding r encodeBytes_def Let_def
    using m d2 d3 d4 by (auto split: if_splits)
qed

lemma unat_encodeRune: "map unat (encodeRune r) = encodeBytes r"
proof -
  have "map unat (map (of_nat :: nat \<Rightarrow> byte) ns) = ns" if "\<forall>b \<in> set ns. b < 256" for ns
    using that by (induction ns) (simp_all add: unat_of_nat)
  then show ?thesis using encodeBytes_bound by (simp add: encodeRune_def)
qed

lemma encodeRune_nonempty: "encodeRune r \<noteq> []"
  by (simp add: encodeRune_def encodeBytes_nonempty)

lemma length_encodeRune: "length (encodeRune r) = length (encodeBytes r)"
  by (simp add: encodeRune_def)

lemma decode_encode_1:
  assumes "n < 0x80"
  shows "decodeBytes (encodeBytes (int n) @ ns) = (int n, length (encodeBytes (int n)))"
proof -
  have v: "validRune (int n)" using assms by (simp add: validRune_def)
  have enc: "encodeBytes (int n) = [n]" using v assms by (simp add: encodeBytes_def)
  show ?thesis unfolding enc using assms by simp
qed

lemma decode_encode_2:
  assumes "0x80 \<le> n" "n < 0x800"
  shows "decodeBytes (encodeBytes (int n) @ ns) = (int n, length (encodeBytes (int n)))"
proof -
  define d where "d = n div 64"
  define m where "m = n mod 64"
  have v: "validRune (int n)" using assms by (simp add: validRune_def)
  have n: "n = d * 64 + m" and m: "m < 64" by (simp_all add: d_def m_def)
  have d: "2 \<le> d" "d \<le> 31" using assms n m by linarith+
  have enc: "encodeBytes (int n) = [0xC0 + d, 0x80 + m]"
    using v assms by (simp add: encodeBytes_def d_def m_def)
  have sl: "seqLen (0xC0 + d) = 2" using d by (simp add: seqLen_def)
  have lo: "acceptLo (0xC0 + d) = 0x80" using d by (simp add: acceptLo_def)
  have hi: "acceptHi (0xC0 + d) = 0xBF" using d by (simp add: acceptHi_def)
  have val: "int (d * 64 + m) = int n" using n by simp
  show ?thesis
    unfolding enc using d m val by (simp add: sl lo hi)
qed

lemma decode_encode_3:
  assumes "0x800 \<le> n" "n < 0x10000" "\<not> (0xD800 \<le> n \<and> n \<le> 0xDFFF)"
  shows "decodeBytes (encodeBytes (int n) @ ns) = (int n, length (encodeBytes (int n)))"
proof -
  define d where "d = n div 4096"
  define e where "e = (n div 64) mod 64"
  define m where "m = n mod 64"
  have v: "validRune (int n)" using assms by (simp add: validRune_def)
  have n: "n = d * 4096 + e * 64 + m" and m: "m < 64" and e: "e < 64"
    using split3[of n] by (simp_all add: d_def e_def m_def)
  have d: "d \<le> 15" using assms n by linarith
  have e0: "d = 0 \<Longrightarrow> 32 \<le> e" using assms n m by linarith
  have e13: "d = 13 \<Longrightarrow> e \<le> 31" using assms n m e by auto
  have enc: "encodeBytes (int n) = [0xE0 + d, 0x80 + e, 0x80 + m]"
    using v assms by (simp add: encodeBytes_def d_def e_def m_def)
  have sl: "seqLen (0xE0 + d) = 3" using d by (simp add: seqLen_def)
  have lo: "\<not> 0x80 + e < acceptLo (0xE0 + d)" using d e0 by (auto simp add: acceptLo_def)
  have hi: "\<not> acceptHi (0xE0 + d) < 0x80 + e" using d e e13 by (auto simp add: acceptHi_def)
  have val: "int (d * 4096 + e * 64 + m) = int n" using n by simp
  show ?thesis
    unfolding enc using m e val lo hi by (simp add: sl)
qed

lemma decode_encode_4:
  assumes "0x10000 \<le> n" "n \<le> 0x10FFFF"
  shows "decodeBytes (encodeBytes (int n) @ ns) = (int n, length (encodeBytes (int n)))"
proof -
  define d where "d = n div 262144"
  define f where "f = (n div 4096) mod 64"
  define e where "e = (n div 64) mod 64"
  define m where "m = n mod 64"
  have v: "validRune (int n)" using assms by (simp add: validRune_def)
  have n: "n = d * 262144 + f * 4096 + e * 64 + m" and m: "m < 64" and e: "e < 64"
    and f: "f < 64"
    using split4[of n] by (simp_all add: d_def e_def f_def m_def)
  have d: "d \<le> 4" using assms n by linarith
  have f0: "d = 0 \<Longrightarrow> 16 \<le> f" using assms n m e by auto
  have f4: "d = 4 \<Longrightarrow> f \<le> 15" using assms n by auto
  have enc: "encodeBytes (int n) = [0xF0 + d, 0x80 + f, 0x80 + e, 0x80 + m]"
    using v assms by (simp add: encodeBytes_def d_def e_def f_def m_def)
  have sl: "seqLen (0xF0 + d) = 4" using d by (simp add: seqLen_def)
  have lo: "\<not> 0x80 + f < acceptLo (0xF0 + d)" using d f0 by (auto simp add: acceptLo_def)
  have hi: "\<not> acceptHi (0xF0 + d) < 0x80 + f" using d f f4 by (auto simp add: acceptHi_def)
  have val: "int (d * 262144 + f * 4096 + e * 64 + m) = int n" using n by simp
  show ?thesis
    unfolding enc using m e f val lo hi by (simp add: sl)
qed

lemma decode_encode_bytes:
  assumes "validRune r"
  shows "decodeBytes (encodeBytes r @ ns) = (r, length (encodeBytes r))"
proof -
  from assms obtain n where r: "r = int n"
    by (auto simp: validRune_def intro: that[of "nat r"])
  have le: "n \<le> 0x10FFFF" and sur: "\<not> (0xD800 \<le> n \<and> n \<le> 0xDFFF)"
    using assms by (auto simp: r validRune_def)
  consider "n < 0x80" | "0x80 \<le> n" "n < 0x800" | "0x800 \<le> n" "n < 0x10000" | "0x10000 \<le> n"
    by linarith
  then show ?thesis
  proof cases
    case 1
    then show ?thesis unfolding r by (rule decode_encode_1)
  next
    case 2
    then show ?thesis unfolding r by (rule decode_encode_2)
  next
    case 3
    then show ?thesis unfolding r using sur by (rule decode_encode_3)
  next
    case 4
    then show ?thesis unfolding r using le by (rule decode_encode_4)
  qed
qed

lemma decodeRune_encodeRune:
  assumes "validRune r"
  shows "decodeRune (encodeRune r @ s) = (r, length (encodeRune r))"
  using decode_encode_bytes[OF assms, of "map unat s"]
  by (simp add: decodeRune_def unat_encodeRune length_encodeRune)

lemma validRune_int:
  "validRune (int k) \<longleftrightarrow> k \<le> 0x10FFFF \<and> \<not> (0xD800 \<le> k \<and> k \<le> 0xDFFF)"
  by (simp add: validRune_def)

lemma decodeBytes_valid: "validRune (fst (decodeBytes ns))"
proof (cases ns)
  case Nil
  then show ?thesis by (simp add: validRune_RuneError)
next
  case (Cons s0 rest)
  have ve: "validRune RuneError" by (rule validRune_RuneError)
  have hi_le: "acceptHi s0 \<le> 0xBF" by (simp add: acceptHi_def)
  have two: "validRune (int ((s0 - 0xC0) * 64 + (s1 - 0x80)))"
    if c: "\<not> s0 < 0x80" "seqLen s0 \<noteq> 0" "\<not> (s1 < acceptLo s0 \<or> acceptHi s0 < s1)"
      "seqLen s0 \<le> 2" for s1
  proof -
    from c(1,2,4) have "s0 \<le> 0xDF" by (auto simp: seqLen_def split: if_splits)
    moreover have "s1 \<le> 0xBF" using c(3) hi_le by linarith
    ultimately have "(s0 - 0xC0) * 64 + (s1 - 0x80) \<le> 31 * 64 + 63"
      by (intro add_mono mult_le_mono) auto
    then show ?thesis unfolding validRune_int by simp
  qed
  have three: "validRune (int ((s0 - 0xE0) * 4096 + (s1 - 0x80) * 64 + (s2 - 0x80)))"
    if c: "\<not> s0 < 0x80" "seqLen s0 \<noteq> 0" "\<not> (s1 < acceptLo s0 \<or> acceptHi s0 < s1)"
      "\<not> seqLen s0 \<le> 2" "\<not> (s2 < 0x80 \<or> 0xBF < s2)" "seqLen s0 \<le> 3"
    for s1 s2
  proof -
    from c(4,6) have s0: "0xE0 \<le> s0" "s0 \<le> 0xEF" by (auto simp: seqLen_def split: if_splits)
    have that: "True" "acceptLo s0 \<le> s1" "s1 \<le> acceptHi s0" "0x80 \<le> s2" "s2 \<le> 0xBF"
      using c(3,5) by auto
    define d where "d = s0 - 0xE0"
    define e where "e = s1 - 0x80"
    define m where "m = s2 - 0x80"
    have d: "d \<le> 15" and m: "m \<le> 63" using s0 that by (auto simp: d_def m_def)
    have e: "e \<le> 63" using that(3) by (auto simp: e_def acceptHi_def split: if_splits)
    have e13: "d = 13 \<Longrightarrow> e \<le> 31"
      using that(3) s0 by (auto simp: d_def e_def acceptHi_def split: if_splits)
    have "d * 4096 + e * 64 + m \<le> 15 * 4096 + 63 * 64 + 63"
      using d e m by (intro add_mono mult_le_mono) auto
    moreover have "\<not> (0xD800 \<le> d * 4096 + e * 64 + m \<and> d * 4096 + e * 64 + m \<le> 0xDFFF)"
    proof (cases "d = 13")
      case True
      with e13 m show ?thesis by auto
    next
      case False
      then consider "d \<le> 12" | "14 \<le> d" by linarith
      then show ?thesis
      proof cases
        case 1
        then have "d * 4096 + e * 64 + m \<le> 12 * 4096 + 63 * 64 + 63"
          using e m by (intro add_mono mult_le_mono) auto
        then show ?thesis by simp
      next
        case 2
        then have "14 * 4096 \<le> d * 4096" by simp
        then show ?thesis by simp
      qed
    qed
    ultimately show ?thesis
      unfolding d_def[symmetric] e_def[symmetric] m_def[symmetric] validRune_int
      by simp
  qed
  have four: "validRune (int ((s0 - 0xF0) * 262144 + (s1 - 0x80) * 4096
                               + (s2 - 0x80) * 64 + (s3 - 0x80)))"
    if c: "\<not> s0 < 0x80" "seqLen s0 \<noteq> 0" "\<not> (s1 < acceptLo s0 \<or> acceptHi s0 < s1)"
      "\<not> seqLen s0 \<le> 2" "\<not> (s2 < 0x80 \<or> 0xBF < s2)" "\<not> seqLen s0 \<le> 3"
      "\<not> (s3 < 0x80 \<or> 0xBF < s3)"
    for s1 s2 s3
  proof -
    from c(6) have s0: "0xF0 \<le> s0" "s0 \<le> 0xF4" by (auto simp: seqLen_def split: if_splits)
    have that: "True" "acceptLo s0 \<le> s1" "s1 \<le> acceptHi s0" "s2 \<le> 0xBF" "s3 \<le> 0xBF"
      using c(3,5,7) by auto
    define d where "d = s0 - 0xF0"
    define f where "f = s1 - 0x80"
    define e where "e = s2 - 0x80"
    define m where "m = s3 - 0x80"
    have d: "d \<le> 4" and m: "m \<le> 63" and e: "e \<le> 63"
      using s0 that by (auto simp: d_def m_def e_def)
    have f: "f \<le> 63" using that(3) by (auto simp: f_def acceptHi_def split: if_splits)
    have f4: "d = 4 \<Longrightarrow> f \<le> 15"
      using that(3) s0 by (auto simp: d_def f_def acceptHi_def split: if_splits)
    have "d * 262144 + f * 4096 + e * 64 + m \<le> 0x10FFFF"
    proof (cases "d = 4")
      case True
      then have "f * 4096 \<le> 15 * 4096" using f4 by simp
      moreover have "e * 64 \<le> 63 * 64" using e by simp
      ultimately show ?thesis using True m by simp
    next
      case False
      then have "d * 262144 \<le> 3 * 262144" using d by simp
      moreover have "f * 4096 \<le> 63 * 4096" using f by simp
      moreover have "e * 64 \<le> 63 * 64" using e by simp
      ultimately show ?thesis using m by simp
    qed
    moreover have "0x10000 \<le> d * 262144 + f * 4096 + e * 64 + m"
    proof (cases "d = 0")
      case True
      then have "16 \<le> f"
        using that(2) s0 by (auto simp: d_def f_def acceptLo_def split: if_splits)
      then have "16 * 4096 \<le> f * 4096" by simp
      then show ?thesis by simp
    next
      case False
      then have "1 * 262144 \<le> d * 262144" by simp
      then show ?thesis by simp
    qed
    ultimately show ?thesis
      unfolding d_def[symmetric] e_def[symmetric] m_def[symmetric] f_def[symmetric]
        validRune_int
      by simp
  qed
  have one: "s0 < 0x80 \<Longrightarrow> validRune (int s0)" unfolding validRune_int by simp
  show ?thesis
    unfolding Cons
    apply (simp only: decodeBytes.simps Let_def fst_conv split: if_split)
    using ve one two three four by blast
qed

subsection \<open>Strings of runes\<close>

lemma toRunes_Nil: "toRunes [] = []"
  by (simp add: toRunes.simps)

lemma toRunes_nonempty: "s \<noteq> [] \<Longrightarrow> toRunes s \<noteq> []"
  by (subst toRunes.simps) (simp split: prod.splits)

lemma decodeRune_valid: "validRune (fst (decodeRune s))"
  by (simp add: decodeRune_def decodeBytes_valid)

lemma toRunes_valid: "r \<in> set (toRunes s) \<Longrightarrow> validRune r"
proof (induction s rule: toRunes.induct)
  case (1 s)
  show ?case
  proof (cases "s = []")
    case True
    with "1.prems" show ?thesis by (simp add: toRunes_Nil)
  next
    case False
    obtain r0 n where d: "decodeRune s = (r0, n)" by (cases "decodeRune s")
    have t: "toRunes s = r0 # toRunes (drop n s)"
      using False d by (subst toRunes.simps) simp
    have v0: "validRune r0" using decodeRune_valid[of s] d by simp
    from "1.prems" t have "r = r0 \<or> r \<in> set (toRunes (drop n s))" by simp
    then show ?thesis
    proof
      assume "r = r0" with v0 show ?thesis by simp
    next
      assume "r \<in> set (toRunes (drop n s))"
      then show ?thesis by (rule "1.IH"[OF False d[symmetric]])
    qed
  qed
qed

lemma toRunes_encodeRune:
  assumes "validRune r"
  shows "toRunes (encodeRune r @ s) = r # toRunes s"
proof -
  have ne: "encodeRune r @ s \<noteq> []" by (simp add: encodeRune_nonempty)
  show ?thesis
    using ne by (subst toRunes.simps) (simp add: decodeRune_encodeRune[OF assms])
qed

lemma toRunes_fromRunes:
  assumes "\<forall>r \<in> set rs. validRune r"
  shows "toRunes (fromRunes rs) = rs"
  using assms
proof (induction rs)
  case Nil
  show ?case by (simp add: fromRunes_def toRunes_Nil)
next
  case (Cons r rs)
  have "fromRunes (r # rs) = encodeRune r @ fromRunes rs" by (simp add: fromRunes_def)
  then show ?case using Cons by (simp add: toRunes_encodeRune)
qed

lemma fromRunes_nonempty: "rs \<noteq> [] \<Longrightarrow> fromRunes rs \<noteq> []"
  by (cases rs) (simp_all add: fromRunes_def encodeRune_nonempty)

lemma StringFirstUpper_eq: "StringFirstUpper f s = StringFirstLower f s"
  by (simp add: StringFirstUpper_def StringFirstLower_def)

lemma StringFirstLower_props:
  assumes f: "\<forall>r. validRune r \<longrightarrow> validRune (f r) \<and> f (f r) = f r"
  shows "\<exists>t. StringFirstLower f s = Returns t
           \<and> tl (toRunes t) = tl (toRunes s)
           \<and> StringFirstLower f t = Returns t"
proof (cases "s = []")
  case True
  then show ?thesis by (simp add: StringFirstLower_def)
next
  case False
  then have "toRunes s \<noteq> []" by (rule toRunes_nonempty)
  then obtain r0 rs where rs: "toRunes s = r0 # rs" by (cases "toRunes s") auto
  have v0: "validRune r0" and vs: "\<forall>r \<in> set rs. validRune r"
    using toRunes_valid[of _ s] rs by auto
  have vf: "validRune (f r0)" and idem: "f (f r0) = f r0" using f v0 by auto
  define t where "t = fromRunes (f r0 # rs)"
  have st: "StringFirstLower f s = Returns t"
    using False rs by (simp add: StringFirstLower_def t_def)
  have rt: "toRunes t = f r0 # rs"
    unfolding t_def using vf vs by (intro toRunes_fromRunes) simp
  have tne: "t \<noteq> []" unfolding t_def by (rule fromRunes_nonempty) simp
  have tt: "StringFirstLower f t = Returns t"
    using tne rt idem by (simp add: StringFirstLower_def t_def)
  from st rt rs tt show ?thesis by simp
qed

text \<open>
  Claim C10. Let \<open>unicode.ToLower\<close> and \<open>unicode.ToUpper\<close> map Unicode scalar values
  to Unicode scalar values and be idempotent on them (facts of the Go library). Then
  \<open>StringFirstLower\<close> and \<open>StringFirstUpper\<close> return the empty string as it is; on
  every string they return a string whose runes after the first are the runes after
  the first of the argument; and applied to their own result they return it again.
\<close>

theorem C10_first_letter:
  assumes L: "\<forall>r. validRune r \<longrightarrow> validRune (ToLower r) \<and> ToLower (ToLower r) = ToLower r"
    and U: "\<forall>r. validRune r \<longrightarrow> validRune (ToUpper r) \<and> ToUpper (ToUpper r) = ToUpper r"
  shows "StringFirstLower ToLower [] = Returns []
     \<and> StringFirstUpper ToUpper [] = Returns []
     \<and> (\<exists>t. StringFirstLower ToLower s = Returns t
            \<and> tl (toRunes t) = tl (toRunes s)
            \<and> StringFirstLower ToLower t = Returns t)
     \<and> (\<exists>t. StringFirstUpper ToUpper s = Returns t
            \<and> tl (toRunes t) = tl (toRunes s)
            \<and> StringFirstUpper ToUpper t = Returns t)"
proof -
  have e1: "StringFirstLower ToLower [] = Returns []" by (simp add: StringFirstLower_def)
  have e2: "StringFirstUpper ToUpper [] = Returns []" by (simp add: StringFirstUpper_def)
  note l = StringFirstLower_props[OF L, of s]
  note u = StringFirstLower_props[OF U, of s, folded StringFirstUpper_eq]
  from e1 e2 l u show ?thesis by blast
qed

theorem C10_first_letter_witness:
  "StringFirstLower asciiToLower [0x41, 0xC3, 0xA9, 0xFF, 0x62] =
       Returns [0x61, 0xC3, 0xA9, 0xEF, 0xBF, 0xBD, 0x62]
   \<and> StringFirstLower asciiToLower [0x61, 0xC3, 0xA9, 0xEF, 0xBF, 0xBD, 0x62] =
       Returns [0x61, 0xC3, 0xA9, 0xEF, 0xBF, 0xBD, 0x62]"
proof -
  have h1: "\<forall>r. validRune r \<longrightarrow> validRune (asciiToLower r)
                          \<and> asciiToLower (asciiToLower r) = asciiToLower r"
    by (auto simp: validRune_def asciiToLower_def)
  have h2: "\<forall>r. validRune r \<longrightarrow> validRune (asciiToUpper r)
                          \<and> asciiToUpper (asciiToUpper r) = asciiToUpper r"
    by (auto simp: validRune_def asciiToUpper_def)
  have ev: "StringFirstLower asciiToLower [0x41, 0xC3, 0xA9, 0xFF, 0x62] =
              Returns [0x61, 0xC3, 0xA9, 0xEF, 0xBF, 0xBD, 0x62]"
    by (simp add: StringFirstLower_def toRunes.simps decodeRune_def seqLen_def acceptLo_def
        acceptHi_def RuneError_def fromRunes_def encodeRune_def encodeBytes_def validRune_def
        asciiToLower_def Let_def)
  from C10_first_letter[OF h1 h2, of "[0x41, 0xC3, 0xA9, 0xFF, 0x62]"] ev
  have "StringFirstLower asciiToLower [0x61, 0xC3, 0xA9, 0xEF, 0xBF, 0xBD, 0x62] =
          Returns [0x61, 0xC3, 0xA9, 0xEF, 0xBF, 0xBD, 0x62]"
    by auto
  with ev show ?thesis by blast
qed

end
